theory Spec2Isabelle
  imports Complex_Main "HOL-Library.Sublist"
begin

section \<open>Text and buffers\<close>

text \<open>
  A Node \<^verbatim>\<open>Buffer\<close> is a list of bytes and a JavaScript string a list of code units;
  both are modelled by \<^typ>\<open>string\<close>, whose characters are bytes. For a buffer whose bytes
  are all below 0x80 the UTF-8 decoding of \<^verbatim>\<open>data.toString()\<close> yields one code unit per
  byte, with the same value, so \<open>toString\<close> is a slice of the byte list. Buffers with
  bytes from 0x80 on are outside this model; statements about whole buffers carry the
  hypothesis \<open>ascii\<close>.
\<close>

definition ascii :: "string \<Rightarrow> bool" where
  "ascii data = list_all (\<lambda>c. (of_char c :: nat) < 128) data"

text \<open>\<^verbatim>\<open>data.toString('utf-8', start, end)\<close> and \<^verbatim>\<open>data.toString()\<close>.\<close>

definition toString_range :: "string \<Rightarrow> nat \<Rightarrow> nat \<Rightarrow> string" where
  "toString_range data start end = take (end - start) (drop start data)"

definition toString :: "string \<Rightarrow> string" where
  "toString data = toString_range data 0 (length data)"

text \<open>
  \<^verbatim>\<open>String.prototype.trim\<close> removes WhiteSpace and LineTerminator code units from both
  ends; below 0x100 these are TAB, LF, VT, FF, CR, SP and NBSP.
\<close>

definition is_space :: "char \<Rightarrow> bool" where
  "is_space c = (c = CHR 0x09 \<or> c = CHR 0x0A \<or> c = CHR 0x0B \<or> c = CHR 0x0C \<or>
                 c = CHR 0x0D \<or> c = CHR 0x20 \<or> c = CHR 0xA0)"

definition trim :: "string \<Rightarrow> string" where
  "trim s = rev (dropWhile is_space (rev (dropWhile is_space s)))"

text \<open>\<^verbatim>\<open>s.slice(a, b)\<close> and \<^verbatim>\<open>s.slice(a)\<close> for literal offsets \<open>0 \<le> a \<le> b\<close>.\<close>

definition slice :: "nat \<Rightarrow> nat \<Rightarrow> string \<Rightarrow> string" where
  "slice a b s = take (b - a) (drop a s)"

definition slice_from :: "nat \<Rightarrow> string \<Rightarrow> string" where
  "slice_from a s = drop a s"

text \<open>\<^verbatim>\<open>s[i]\<close>: the code unit at \<open>i\<close>, or \<^verbatim>\<open>undefined\<close> (\<open>None\<close>) past the end.\<close>

definition char_at :: "string \<Rightarrow> nat \<Rightarrow> char option" where
  "char_at s i = (if i < length s then Some (s ! i) else None)"

text \<open>\<^verbatim>\<open>s.indexOf(pat)\<close>: the first position where \<open>pat\<close> starts, \<open>None\<close> for -1.\<close>

fun starts_with :: "string \<Rightarrow> string \<Rightarrow> bool" where
  "starts_with s [] = True"
| "starts_with [] (p # ps) = False"
| "starts_with (c # cs) (p # ps) = (c = p \<and> starts_with cs ps)"

fun str_indexOf :: "string \<Rightarrow> string \<Rightarrow> nat option" where
  "str_indexOf [] pat = (if pat = [] then Some 0 else None)"
| "str_indexOf (c # cs) pat =
     (if starts_with (c # cs) pat then Some 0 else map_option Suc (str_indexOf cs pat))"

text \<open>\<^verbatim>\<open>data.indexOf(byte, offset)\<close> on a buffer.\<close>

fun index_of :: "string \<Rightarrow> char \<Rightarrow> nat option" where
  "index_of [] b = None"
| "index_of (c # cs) b = (if c = b then Some 0 else map_option Suc (index_of cs b))"

definition buf_indexOf :: "string \<Rightarrow> char \<Rightarrow> nat \<Rightarrow> nat option" where
  "buf_indexOf data b offset = map_option (\<lambda>i. offset + i) (index_of (drop offset data) b)"

text \<open>
  \<^verbatim>\<open>s.split(sep)\<close> for a separator of one character: never the empty array;
  \<^verbatim>\<open>''.split('|')\<close> is \<^verbatim>\<open>['']\<close>.
\<close>

fun split_on :: "char \<Rightarrow> string \<Rightarrow> string list" where
  "split_on sep [] = [[]]"
| "split_on sep (c # cs) =
     (if c = sep then [] # split_on sep cs
      else (case split_on sep cs of [] \<Rightarrow> [[c]] | p # ps \<Rightarrow> (c # p) # ps))"

text \<open>\<^verbatim>\<open>.replace(/\u001e/g, '<RS>')\<close>.\<close>

fun replace_RS :: "string \<Rightarrow> string" where
  "replace_RS [] = []"
| "replace_RS (c # cs) = (if c = CHR 0x1E then ''<RS>'' @ replace_RS cs else c # replace_RS cs)"

text \<open>
  The two regular expressions, unanchored as \<^verbatim>\<open>match\<close> searches them:
  \<^verbatim>\<open>/[4-9]D/\<close> and \<^verbatim>\<open>/1[0-6]D/\<close>.
\<close>

definition in_range :: "char \<Rightarrow> char \<Rightarrow> char \<Rightarrow> bool" where
  "in_range lo hi c = ((of_char lo :: nat) \<le> of_char c \<and> (of_char c :: nat) \<le> of_char hi)"

fun match_4_9_D :: "string \<Rightarrow> bool" where
  "match_4_9_D (a # b # cs) =
     ((in_range CHR ''4'' CHR ''9'' a \<and> b = CHR ''D'') \<or> match_4_9_D (b # cs))"
| "match_4_9_D cs = False"

fun match_1_0_6_D :: "string \<Rightarrow> bool" where
  "match_1_0_6_D (a # b # c # cs) =
     ((a = CHR ''1'' \<and> in_range CHR ''0'' CHR ''6'' b \<and> c = CHR ''D'') \<or>
      match_1_0_6_D (b # c # cs))"
| "match_1_0_6_D cs = False"

section \<open>The field decoder of captureResult\<close>

datatype key =
  Mfg_pn | Manufacturer | Traceability | Coo | Product | Qty | Serial | Date_code |
  Distributor | Order_no | Line_no | Invoice_no | Pick | Part_id | Load_id | Signature |
  Unknown

text \<open>
  The object \<^verbatim>\<open>fields\<close> (here \<open>flds\<close>) is kept as the list of the assignments made to it, the newest
  first; reading a key yields the newest value assigned to it, \<open>None\<close> for
  \<^verbatim>\<open>undefined\<close>.
\<close>

type_synonym fields = "(key \<times> string) list"

definition get_field :: "fields \<Rightarrow> key \<Rightarrow> string option" where
  "get_field flds k = map_of flds k"

definition assign :: "fields \<Rightarrow> (key \<times> string) list \<Rightarrow> fields" where
  "assign flds as = rev as @ flds"

datatype error = TypeError | HttpError

text \<open>
  One pass through the chain of \<^verbatim>\<open>if\<close>/\<^verbatim>\<open>else if\<close> for a segment: the assignments of
  the branch taken, in the order they are executed. \<^verbatim>\<open>parts[3].slice\<close> raises a TypeError
  when \<^verbatim>\<open>parts[3]\<close> is undefined.
\<close>

definition digikey_rules :: "string \<Rightarrow> (key \<times> string) list" where
  "digikey_rules field =
     (if slice 0 2 field = ''1K'' then [(Order_no, slice_from 2 field)]
      else if slice 0 3 field = ''4K'' then [(Line_no, slice_from 2 field)]
      else if slice 0 3 field = ''10K'' then [(Invoice_no, slice_from 3 field)]
      else if slice 0 3 field = ''11K'' then [(Line_no, slice_from 3 field)]
      else if slice 0 3 field = ''11Z'' then [(Pick, slice_from 3 field)]
      else if slice 0 3 field = ''12Z'' then [(Part_id, slice_from 3 field)]
      else if slice 0 3 field = ''13Z'' then [(Load_id, slice_from 3 field)]
      else if slice 0 3 field = ''20Z'' then []
      else [])"

definition match_rules :: "fields \<Rightarrow> string \<Rightarrow> error + (key \<times> string) list" where
  "match_rules flds field =
     (if slice 0 4 field = ''GWCR'' then
        (let parts = split_on CHR ''|'' field in
         if length parts < 4 then Inl TypeError
         else Inr [(Mfg_pn, parts ! 0), (Qty, parts ! 1), (Date_code, parts ! 2),
                   (Coo, slice 5 7 (parts ! 3)), (Traceability, slice_from 7 (parts ! 3))])
      else if str_indexOf field ''[)>'' \<noteq> None then Inr [(Signature, field)]
      else if slice 0 2 field = ''1P'' then Inr [(Mfg_pn, slice_from 2 field)]
      else if slice 0 2 field = ''1V'' then Inr [(Manufacturer, slice_from 2 field)]
      else if slice 0 2 field = ''1T'' then Inr [(Traceability, slice_from 2 field)]
      else if slice 0 2 field = ''4L'' then Inr [(Coo, slice_from 2 field)]
      else if char_at field 0 = Some CHR ''P'' then Inr [(Product, slice_from 1 field)]
      else if char_at field 0 = Some CHR ''Q'' then Inr [(Qty, slice_from 1 field)]
      else if char_at field 0 = Some CHR ''S'' then Inr [(Serial, slice_from 1 field)]
      else if match_4_9_D (slice 0 2 field) then Inr [(Date_code, slice_from 2 field)]
      else if match_1_0_6_D (slice 0 3 field) then Inr [(Date_code, slice_from 3 field)]
      else if char_at field 0 = Some CHR ''K'' then
        (if length field = 1 then Inr [(Distributor, ''Digi-Key'')]
         else Inr [(Order_no, slice_from 1 field)])
      else if get_field flds Distributor = Some ''Digi-Key'' then Inr (digikey_rules field)
      else if slice 0 3 field = ''11K'' then Inr [(Invoice_no, slice_from 3 field)]
      else if slice 0 3 field = ''14K'' then Inr [(Line_no, slice_from 3 field)]
      else Inr [(Unknown, field)])"

text \<open>The trailing bytes EOT, CR, LF and RS are left out: \<open>endpos\<close>.\<close>

definition is_trailer :: "char \<Rightarrow> bool" where
  "is_trailer c = (c = CHR 0x04 \<or> c = CHR 0x0D \<or> c = CHR 0x0A \<or> c = CHR 0x1E)"

fun find_endpos :: "string \<Rightarrow> nat \<Rightarrow> nat" where
  "find_endpos data 0 = 0"
| "find_endpos data (Suc e) = (if is_trailer (data ! e) then find_endpos data e else Suc e)"

definition separator :: char where
  "separator = CHR 0x1D"

lemma index_of_bound: "index_of cs b = Some i \<Longrightarrow> i < length cs"
  by (induction cs arbitrary: i) (auto split: if_splits)

lemma buf_indexOf_ge: "buf_indexOf data b offset = Some p \<Longrightarrow> offset \<le> p"
  by (auto simp: buf_indexOf_def)

text \<open>The \<^verbatim>\<open>do ... while(prevpos < endpos)\<close> loop.\<close>

function parse_loop :: "string \<Rightarrow> nat \<Rightarrow> nat \<Rightarrow> fields \<Rightarrow> error + fields" where
  "parse_loop data endpos prevpos flds =
     (let pos = (case buf_indexOf data separator prevpos of None \<Rightarrow> endpos | Some p \<Rightarrow> p);
          field = replace_RS (trim (toString_range data prevpos pos))
      in case match_rules flds field of
           Inl e \<Rightarrow> Inl e
         | Inr as \<Rightarrow>
             if pos + 1 < endpos then parse_loop data endpos (pos + 1) (assign flds as)
             else Inr (assign flds as))"
  by pat_completeness auto
termination
proof (relation "measure (\<lambda>(data, endpos, prevpos, flds). endpos - prevpos)", goal_cases)
  case 1
  show ?case by simp
next
  case (2 data endpos prevpos flds pos field as)
  have "prevpos \<le> pos \<or> pos = endpos"
    using 2(1) by (auto split: option.splits dest: buf_indexOf_ge)
  with 2(4) show ?case by auto
qed

declare parse_loop.simps [simp del]

text \<open>
  The decoding part of \<open>captureResult\<close>: \<open>Inr None\<close> when no code was found (the early
  return), \<open>Inr (Some flds)\<close> after the loop, \<open>Inl\<close> when the loop raises.
\<close>

definition no_code_found :: "string \<Rightarrow> bool" where
  "no_code_found data =
     (let result = trim (toString data)
      in result = [] \<or> str_indexOf result ''NOREAD'' \<noteq> None)"

definition decode :: "string \<Rightarrow> error + fields option" where
  "decode data =
     (if no_code_found data then Inr None
      else case parse_loop data (find_endpos data (length data)) 0 [] of
             Inl e \<Rightarrow> Inl e
           | Inr flds \<Rightarrow> Inr (Some flds))"

section \<open>The range finder callback\<close>

text \<open>
  The numbers of the code are IEEE doubles, and its sums, products, quotients and square
  roots round: five equal samples can give a difference \<open>sumsq / n - avg * avg\<close> slightly
  below zero, of which \<^verbatim>\<open>Math.sqrt\<close> is \<open>NaN\<close>. The doubles are therefore a type \<open>'a\<close> that
  is left open, and their operations are parameters of the model, collected in a record:
  what is proved holds for whatever the operations compute. \<open>of_count\<close> is the double of a
  length, \<open>fzero\<close> the double 0, and \<open>number_of\<close> reads a double for the comparisons: a real
  number, or \<open>NaN\<close>, with which every comparison is false.
\<close>

datatype number = Num real | NaN

fun js_lt :: "number \<Rightarrow> real \<Rightarrow> bool" where
  "js_lt (Num x) t = (x < t)"
| "js_lt NaN t = False"

fun js_gt :: "number \<Rightarrow> real \<Rightarrow> bool" where
  "js_gt (Num x) t = (t < x)"
| "js_gt NaN t = False"

record 'a float_ops =
  fadd :: "'a \<Rightarrow> 'a \<Rightarrow> 'a"
  fsub :: "'a \<Rightarrow> 'a \<Rightarrow> 'a"
  fmul :: "'a \<Rightarrow> 'a \<Rightarrow> 'a"
  fdiv :: "'a \<Rightarrow> 'a \<Rightarrow> 'a"
  fsqrt :: "'a \<Rightarrow> 'a"
  of_count :: "nat \<Rightarrow> 'a"
  fzero :: 'a
  number_of :: "'a \<Rightarrow> number"

definition THRESHOLD_DISTANCE_MM :: real where
  "THRESHOLD_DISTANCE_MM = 50"

definition THRESHOLD_MAX_DEVIATION :: real where
  "THRESHOLD_MAX_DEVIATION = 1"

text \<open>The \<^verbatim>\<open>for\<close> loop over \<open>lastMeasures\<close>, accumulating \<open>sum\<close> (here \<open>sm\<close>) and \<open>sumsq\<close>.\<close>

fun sum_loop :: "'a float_ops \<Rightarrow> 'a list \<Rightarrow> 'a \<times> 'a \<Rightarrow> 'a \<times> 'a" where
  "sum_loop fp [] (sm, sumsq) = (sm, sumsq)"
| "sum_loop fp (x # xs) (sm, sumsq) =
     sum_loop fp xs (fadd fp sm x, fadd fp sumsq (fmul fp x x))"

definition statistics :: "'a float_ops \<Rightarrow> 'a list \<Rightarrow> 'a \<times> 'a" where
  "statistics fp lastMeasures =
     (let n = of_count fp (length lastMeasures);
          (sm, sumsq) = sum_loop fp lastMeasures (fzero fp, fzero fp);
          avg = fdiv fp sm n;
          stddev = fsqrt fp (fsub fp (fdiv fp sumsq n) (fmul fp avg avg))
      in (avg, stddev))"

text \<open>
  The first part of \<open>timedReportCallback\<close>: the sample is pushed, nothing more happens
  while fewer than five samples are there, else the statistics are taken and the oldest
  sample is spliced out. The result is the new \<open>lastMeasures\<close> and the pair
  \<open>(avg, stddev)\<close> when one was computed.
\<close>

definition ingest :: "'a float_ops \<Rightarrow> 'a \<Rightarrow> 'a list \<Rightarrow> 'a list \<times> ('a \<times> 'a) option" where
  "ingest fp v lastMeasures =
     (let lm = lastMeasures @ [v]; n = length lm
      in if n < 5 then (lm, None) else (drop 1 lm, Some (statistics fp lm)))"


text \<open>The second part: which call on the camera the chain of tests selects.\<close>

datatype action = Fire | Arm | Disarm | NoAction

definition decide :: "number \<Rightarrow> number \<Rightarrow> action" where
  "decide avg stddev =
     (if js_lt avg THRESHOLD_DISTANCE_MM \<and> js_lt stddev THRESHOLD_MAX_DEVIATION then Fire
      else if js_lt avg THRESHOLD_DISTANCE_MM \<or> js_gt stddev THRESHOLD_MAX_DEVIATION then Arm
      else if js_gt avg THRESHOLD_DISTANCE_MM \<and> js_lt stddev THRESHOLD_MAX_DEVIATION then Disarm
      else NoAction)"

section \<open>The camera driver\<close>

text \<open>
  The state of a \<open>V430F_Driver\<close> and of the part of the Node runtime it uses. Sockets and
  timers are handles, numbered from \<open>fresh\<close>. \<open>sock\<close>, \<open>captureTimeout\<close> and
  \<open>targetPattern\<close> are the members of the class (\<open>None\<close> for \<^verbatim>\<open>null\<close>); \<open>timers\<close> are the
  timers that are armed; \<open>connecting\<close> are the sockets that \<open>connect\<close> created and that
  are not connected yet, each with what awaits its promise; \<open>written\<close> is what was written
  to which socket, in order; \<open>downloads\<close> counts the calls of \<open>captureResult\<close> suspended
  at \<^verbatim>\<open>await this.downloadImage(1)\<close>; \<open>rejected\<close> are the errors that ended a call.
  The buzzer, the log, the files and the HTTP notification are left out.
\<close>

datatype continuation = Resume_triggerCapture | Resume_setTargetPattern bool | No_continuation

record session =
  sock :: "nat option"
  captureTimeout :: "nat option"
  targetPattern :: "bool option"
  timers :: "nat list"
  connecting :: "(nat \<times> continuation) list"
  written :: "(nat \<times> string) list"
  downloads :: nat
  rejected :: "error list"
  fresh :: nat

definition new_driver :: session where
  "new_driver = \<lparr>sock = None, captureTimeout = None, targetPattern = None, timers = [],
     connecting = [], written = [], downloads = 0, rejected = [], fresh = 0\<rparr>"

definition CRLF :: string where
  "CRLF = [CHR 0x0D, CHR 0x0A]"

text \<open>
  \<open>connect\<close> creates a socket and returns a promise; the caller \<open>k\<close> is suspended until
  the socket is connected.
\<close>

definition connect :: "continuation \<Rightarrow> session \<Rightarrow> session" where
  "connect k s = s\<lparr>connecting := connecting s @ [(fresh s, k)], fresh := Suc (fresh s)\<rparr>"

text \<open>\<open>setTargetPattern\<close>: up to the \<^verbatim>\<open>await\<close>, and from it on.\<close>

definition setTargetPattern_resume :: "bool \<Rightarrow> session \<Rightarrow> session" where
  "setTargetPattern_resume enabled s =
     (case sock s of
        None \<Rightarrow> s
      | Some c \<Rightarrow>
          s\<lparr>targetPattern := Some enabled,
            written := written s @ [(c, ''<l'' @ (if enabled then ''1'' else ''0'') @ ''>'' @ CRLF)]\<rparr>)"

definition setTargetPattern :: "bool \<Rightarrow> session \<Rightarrow> session" where
  "setTargetPattern enabled s =
     (if targetPattern s = Some enabled then s
      else if captureTimeout s \<noteq> None then s
      else if sock s = None then connect (Resume_setTargetPattern enabled) s
      else setTargetPattern_resume enabled s)"

text \<open>\<open>triggerCapture\<close>: up to the \<^verbatim>\<open>await\<close>, and from it on.\<close>

definition triggerCapture_resume :: "session \<Rightarrow> session" where
  "triggerCapture_resume s =
     (case sock s of
        None \<Rightarrow> s
      | Some c \<Rightarrow>
          s\<lparr>written := written s @ [(c, ''< >'' @ CRLF)],
            captureTimeout := Some (fresh s),
            timers := fresh s # timers s,
            fresh := Suc (fresh s)\<rparr>)"

definition triggerCapture :: "session \<Rightarrow> session" where
  "triggerCapture s =
     (if captureTimeout s \<noteq> None then s
      else if sock s = None then connect Resume_triggerCapture s
      else triggerCapture_resume s)"

text \<open>
  The callback of \<^verbatim>\<open>sock.connect\<close> for the socket \<open>n\<close>: it stores the socket and resolves
  the promise, and the suspended caller goes on.
\<close>

definition on_connect :: "nat \<Rightarrow> session \<Rightarrow> session" where
  "on_connect n s =
     (case map_of (connecting s) n of
        None \<Rightarrow> s
      | Some k \<Rightarrow>
          (let s1 = s\<lparr>sock := Some n, connecting := filter (\<lambda>(m, k'). m \<noteq> n) (connecting s)\<rparr>
           in case k of
                Resume_triggerCapture \<Rightarrow> triggerCapture_resume s1
              | Resume_setTargetPattern enabled \<Rightarrow> setTargetPattern_resume enabled s1
              | No_continuation \<Rightarrow> s1))"

text \<open>The \<open>close\<close> handler of a socket.\<close>

definition on_close :: "session \<Rightarrow> session" where
  "on_close s = s\<lparr>sock := None\<rparr>"

text \<open>The timer \<open>t\<close> set by \<open>triggerCapture\<close> expires, if it is still armed.\<close>

definition on_timeout :: "nat \<Rightarrow> session \<Rightarrow> session" where
  "on_timeout t s =
     (if t \<in> set (timers s)
      then triggerCapture (s\<lparr>timers := removeAll t (timers s), captureTimeout := None\<rparr>)
      else s)"

text \<open>
  \<open>captureResult\<close>, up to \<^verbatim>\<open>await this.downloadImage(1)\<close>. \<^verbatim>\<open>clearTimeout\<close> disarms
  the timer and leaves the handle in \<open>captureTimeout\<close>. When the decoder raises, the call
  ends there.
\<close>

definition clearTimeout :: "nat \<Rightarrow> session \<Rightarrow> session" where
  "clearTimeout t s = s\<lparr>timers := removeAll t (timers s)\<rparr>"

definition captureResult :: "string \<Rightarrow> session \<Rightarrow> session" where
  "captureResult data s =
     (let s1 = (case captureTimeout s of None \<Rightarrow> s | Some t \<Rightarrow> clearTimeout t s)
      in case decode data of
           Inr None \<Rightarrow> s1\<lparr>captureTimeout := None\<rparr>
         | Inl e \<Rightarrow> s1\<lparr>rejected := rejected s1 @ [e]\<rparr>
         | Inr (Some flds) \<Rightarrow>
             (let s2 = setTargetPattern False s1 in s2\<lparr>downloads := Suc (downloads s2)\<rparr>))"

text \<open>The image arrives, or the download fails: the rest of \<open>captureResult\<close>.\<close>

definition image_loaded :: "session \<Rightarrow> session" where
  "image_loaded s =
     (if downloads s = 0 then s else s\<lparr>downloads := downloads s - 1, captureTimeout := None\<rparr>)"

definition image_failed :: "session \<Rightarrow> session" where
  "image_failed s =
     (if downloads s = 0 then s
      else s\<lparr>downloads := downloads s - 1, rejected := rejected s @ [HttpError]\<rparr>)"

text \<open>The rest of \<open>timedReportCallback\<close>: the call made on the camera.\<close>

definition perform :: "action \<Rightarrow> session \<Rightarrow> session" where
  "perform a camera =
     (case a of
        Fire \<Rightarrow> triggerCapture camera
      | Arm \<Rightarrow> setTargetPattern True camera
      | Disarm \<Rightarrow> setTargetPattern False camera
      | NoAction \<Rightarrow> camera)"

definition timedReportCallback ::
  "'a float_ops \<Rightarrow> 'a \<Rightarrow> 'a list \<times> session \<Rightarrow> 'a list \<times> session" where
  "timedReportCallback fp v st =
     (case st of (lastMeasures, camera) \<Rightarrow>
        (case ingest fp v lastMeasures of
           (lm, None) \<Rightarrow> (lm, camera)
         | (lm, Some (avg, stddev)) \<Rightarrow>
             (lm, perform (decide (number_of fp avg) (number_of fp stddev)) camera)))"

text \<open>
  The events of a session, each handled to its end before the next one: calls of the two
  operations, and what the runtime delivers.
\<close>

datatype event =
  Call_triggerCapture | Call_setTargetPattern bool | Call_connect |
  Connected nat | Closed | Data string | Expired nat | Image_loaded | Image_failed

fun step :: "event \<Rightarrow> session \<Rightarrow> session" where
  "step Call_triggerCapture s = triggerCapture s"
| "step (Call_setTargetPattern enabled) s = setTargetPattern enabled s"
| "step Call_connect s = connect No_continuation s"
| "step (Connected n) s = on_connect n s"
| "step Closed s = on_close s"
| "step (Data data) s = captureResult data s"
| "step (Expired t) s = on_timeout t s"
| "step Image_loaded s = image_loaded s"
| "step Image_failed s = image_failed s"

definition run :: "event list \<Rightarrow> session \<Rightarrow> session" where
  "run evs s = fold step evs s"

fun is_call :: "event \<Rightarrow> bool" where
  "is_call Call_triggerCapture = True"
| "is_call (Call_setTargetPattern enabled) = True"
| "is_call ev = False"

text \<open>
  Two sessions for the examples, both reached from a new driver: connected with the aim indicator switched on, and the
  same after a capture was triggered.
\<close>

definition aiming_session :: session where
  "aiming_session = run [Call_connect, Connected 0, Call_setTargetPattern True] new_driver"

definition awaiting_session :: session where
  "awaiting_session = run [Call_triggerCapture] aiming_session"

section \<open>Notions used in the statements\<close>

text \<open>How often a key was assigned during a decode.\<close>

definition assignments_to :: "key \<Rightarrow> fields \<Rightarrow> nat" where
  "assignments_to k flds = length (filter (\<lambda>(k', v). k' = k) flds)"

text \<open>
  For each key a buffer in which two segments assign it, with the values that the two
  segments assign and the assignments that the decode makes (for \<open>pick\<close>, \<open>part_id\<close>
  and \<open>load_id\<close> a bare \<open>K\<close> comes first and assigns \<open>distributor\<close>).
\<close>

fun first_value :: "key \<Rightarrow> string" where
  "first_value Distributor = ''Digi-Key''"
| "first_value Signature = ''[)>A''"
| "first_value k = ''A''"

fun second_value :: "key \<Rightarrow> string" where
  "second_value Distributor = ''Digi-Key''"
| "second_value Signature = ''[)>B''"
| "second_value k = ''B''"

fun two_segments :: "key \<Rightarrow> string" where
  "two_segments Mfg_pn = ''1PA'' @ [separator] @ ''1PB''"
| "two_segments Manufacturer = ''1VA'' @ [separator] @ ''1VB''"
| "two_segments Traceability = ''1TA'' @ [separator] @ ''1TB''"
| "two_segments Coo = ''4LA'' @ [separator] @ ''4LB''"
| "two_segments Product = ''PA'' @ [separator] @ ''PB''"
| "two_segments Qty = ''QA'' @ [separator] @ ''QB''"
| "two_segments Serial = ''SA'' @ [separator] @ ''SB''"
| "two_segments Date_code = ''4DA'' @ [separator] @ ''4DB''"
| "two_segments Distributor = ''K'' @ [separator] @ ''K''"
| "two_segments Order_no = ''KA'' @ [separator] @ ''KB''"
| "two_segments Line_no = ''14KA'' @ [separator] @ ''14KB''"
| "two_segments Invoice_no = ''11KA'' @ [separator] @ ''11KB''"
| "two_segments Pick = ''K'' @ [separator] @ ''11ZA'' @ [separator] @ ''11ZB''"
| "two_segments Part_id = ''K'' @ [separator] @ ''12ZA'' @ [separator] @ ''12ZB''"
| "two_segments Load_id = ''K'' @ [separator] @ ''13ZA'' @ [separator] @ ''13ZB''"
| "two_segments Signature = ''[)>A'' @ [separator] @ ''[)>B''"
| "two_segments Unknown = ''A'' @ [separator] @ ''B''"

definition two_assignments :: "key \<Rightarrow> fields" where
  "two_assignments k =
     [(k, second_value k), (k, first_value k)] @
     (if k = Pick \<or> k = Part_id \<or> k = Load_id then [(Distributor, ''Digi-Key'')] else [])"

text \<open>
  The tests of the chain that stand before the test of the Digi-Key sentinel (rules 1 to
  12 of the specification's table), and the tests inside the Digi-Key block, as the code
  writes them.
\<close>

definition rules_1_to_12 :: "string \<Rightarrow> bool" where
  "rules_1_to_12 field =
     (slice 0 4 field = ''GWCR'' \<or> str_indexOf field ''[)>'' \<noteq> None \<or>
      slice 0 2 field = ''1P'' \<or> slice 0 2 field = ''1V'' \<or> slice 0 2 field = ''1T'' \<or>
      slice 0 2 field = ''4L'' \<or> char_at field 0 = Some CHR ''P'' \<or>
      char_at field 0 = Some CHR ''Q'' \<or> char_at field 0 = Some CHR ''S'' \<or>
      match_4_9_D (slice 0 2 field) \<or> match_1_0_6_D (slice 0 3 field) \<or>
      char_at field 0 = Some CHR ''K'')"

definition digikey_prefix :: "string \<Rightarrow> bool" where
  "digikey_prefix field =
     (slice 0 2 field = ''1K'' \<or> slice 0 3 field = ''4K'' \<or> slice 0 3 field = ''10K'' \<or>
      slice 0 3 field = ''11K'' \<or> slice 0 3 field = ''11Z'' \<or> slice 0 3 field = ''12Z'' \<or>
      slice 0 3 field = ''13Z'' \<or> slice 0 3 field = ''20Z'')"

text \<open>
  The failure condition in the words of the specification (section 4.4), to compare with
  \<open>no_code_found\<close>: the buffer without its trailing control bytes is cut at the group
  separators, each segment is trimmed and its record separators are escaped; the decode
  fails when the trimmed text is empty or a segment is the text \<open>NOREAD\<close>.
\<close>

definition spec_segments :: "string \<Rightarrow> string list" where
  "spec_segments data =
     map (\<lambda>seg. replace_RS (trim seg))
       (split_on separator (take (find_endpos data (length data)) data))"

definition spec_failure :: "string \<Rightarrow> bool" where
  "spec_failure data =
     (trim (toString data) = [] \<or> List.member (spec_segments data) ''NOREAD'')"

section \<open>Properties of the field decoder\<close>

lemma split_on_not_Nil: "split_on sep s \<noteq> []"
  by (induction s) (auto split: list.splits)

lemma gwcr_short_raises:
  "slice 0 4 field = ''GWCR'' \<Longrightarrow> length (split_on CHR ''|'' field) < 4 \<Longrightarrow>
   match_rules flds field = Inl TypeError"
  by (simp add: match_rules_def)

lemma match_rules_raises_iff:
  "(match_rules flds field = Inl e) =
     (e = TypeError \<and> slice 0 4 field = ''GWCR'' \<and> length (split_on CHR ''|'' field) < 4)"
  by (cases e) (auto simp: match_rules_def Let_def)

text \<open>
  C3 (the result-parsing step never raises, also on a \<open>GWCR\<close> segment with fewer than
  four parts). The code raises: for the buffer \<open>GWCR123|5\<close> the segment splits in two
  parts, \<^verbatim>\<open>parts[3]\<close> is undefined and \<^verbatim>\<open>parts[3].slice(5, 7)\<close> is a TypeError; the
  same for the buffer \<open>GWCR\<close> alone.
\<close>

theorem C3_gwcr_raises:
  "decode ''GWCR123|5'' = Inl TypeError \<and> decode ''GWCR'' = Inl TypeError \<and>
   split_on CHR ''|'' ''GWCR123|5'' = [''GWCR123'', ''5'']"
  by code_simp

lemma digikey_4K_long:
  assumes "slice 0 2 field = ''4K''" and "2 < length field"
  shows "digikey_rules field = []"
proof -
  from assms obtain c cs where f: "field = CHR ''4'' # CHR ''K'' # c # cs"
    by (cases field; cases "tl field"; cases "tl (tl field)") (auto simp: slice_def)
  show ?thesis
    by (simp add: f digikey_rules_def slice_def)
qed

text \<open>
  C8 (with the Digi-Key sentinel set, a segment starting with \<open>4K\<close> and longer than two
  characters sets \<open>line_no\<close> to the rest after two characters). The code compares the
  first three characters with \<open>4K\<close>, so only the segment \<open>4K\<close> itself matches: after a
  bare \<open>K\<close>, the segment \<open>4K123\<close> assigns nothing, and \<open>line_no\<close> stays undefined.
\<close>

theorem C8_4K_not_matched:
  "decode (''K'' @ [CHR 0x1D] @ ''4K123'') = Inr (Some [(Distributor, ''Digi-Key'')]) \<and>
   match_rules [(Distributor, ''Digi-Key'')] ''4K123'' = Inr [] \<and>
   get_field [(Distributor, ''Digi-Key'')] Line_no = None \<and>
   match_rules [(Distributor, ''Digi-Key'')] ''4K'' = Inr [(Line_no, [])]"
  by code_simp

lemma starts_with_prefix: "starts_with s p = prefix p s"
  by (induction s p rule: starts_with.induct) auto

lemma str_indexOf_sublist: "(str_indexOf s pat \<noteq> None) = sublist pat s"
  by (induction s) (auto simp: starts_with_prefix sublist_Cons_right)

lemma dropWhile_keeps:
  assumes "p \<noteq> []" and "\<not> P (hd p)"
  shows "\<exists>a'. dropWhile P (a @ p @ b) = a' @ p @ b"
proof (induction a)
  case Nil
  from assms have "dropWhile P (p @ b) = p @ b"
    by (cases p) auto
  then show ?case by (intro exI [of _ "[]"]) simp
next
  case (Cons x a)
  then obtain a' where a': "dropWhile P (a @ p @ b) = a' @ p @ b" by blast
  show ?case
  proof (cases "P x")
    case True
    with a' show ?thesis by auto
  next
    case False
    then show ?thesis by (intro exI [of _ "x # a"]) simp
  qed
qed

lemma sublist_trim:
  assumes "sublist p s" and "p \<noteq> []" and "\<not> is_space (hd p)" and "\<not> is_space (last p)"
  shows "sublist p (trim s)"
proof -
  from assms(1) obtain a b where "s = a @ p @ b" by (auto simp: sublist_def)
  with dropWhile_keeps [of p is_space a b] assms(2,3) obtain a' where
    1: "dropWhile is_space s = a' @ p @ b" by auto
  have "rev p \<noteq> []" "\<not> is_space (hd (rev p))"
    using assms(2,4) by (auto simp: hd_rev)
  from dropWhile_keeps [of "rev p" is_space "rev b" "rev a'"] this obtain b' where
    "dropWhile is_space (rev b @ rev p @ rev a') = b' @ rev p @ rev a'" by auto
  with 1 have "trim s = a' @ p @ rev b'"
    by (simp add: trim_def)
  then show ?thesis by (auto simp: sublist_def)
qed

lemma trim_sublist: "sublist (trim s) s"
proof -
  have "suffix (dropWhile is_space (rev (dropWhile is_space s))) (rev (dropWhile is_space s))"
    by (rule suffix_dropWhile)
  then have "prefix (trim s) (dropWhile is_space s)"
    unfolding trim_def by (metis rev_rev_ident suffix_to_prefix)
  moreover have "suffix (dropWhile is_space s) s" by (rule suffix_dropWhile)
  ultimately show ?thesis
    by (meson prefix_imp_sublist suffix_imp_sublist sublist_order.order.trans)
qed

lemma noread_trim: "sublist ''NOREAD'' (trim s) = sublist ''NOREAD'' s"
proof
  assume "sublist ''NOREAD'' (trim s)"
  with trim_sublist [of s] show "sublist ''NOREAD'' s"
    by (meson sublist_order.order.trans)
next
  assume "sublist ''NOREAD'' s"
  then show "sublist ''NOREAD'' (trim s)"
    by (rule sublist_trim) (simp_all add: is_space_def)
qed

lemma no_code_found_iff:
  "no_code_found data = (trim (toString data) = [] \<or> sublist ''NOREAD'' (toString data))"
  using str_indexOf_sublist [of "trim (toString data)" "''NOREAD''"]
  by (simp only: no_code_found_def Let_def noread_trim)

lemma match_rules_first: "match_rules [] field = Inr as \<Longrightarrow> as \<noteq> []"
  by (auto simp: match_rules_def get_field_def Let_def split: if_splits)

lemma parse_loop_unfold:
  assumes "parse_loop data endpos prevpos flds = Inr flds'"
    and "pos = (case buf_indexOf data separator prevpos of None \<Rightarrow> endpos | Some p \<Rightarrow> p)"
    and "field = replace_RS (trim (toString_range data prevpos pos))"
  shows "\<exists>as. match_rules flds field = Inr as \<and>
    (if pos + 1 < endpos then parse_loop data endpos (pos + 1) (assign flds as) = Inr flds'
     else flds' = assign flds as)"
proof -
  have "parse_loop data endpos prevpos flds =
    (case match_rules flds field of Inl e \<Rightarrow> Inl e
     | Inr as \<Rightarrow> if pos + 1 < endpos then parse_loop data endpos (pos + 1) (assign flds as)
                else Inr (assign flds as))"
    by (subst parse_loop.simps) (simp only: Let_def assms(2,3))
  with assms(1) show ?thesis
    by (cases "match_rules flds field") (simp_all split: if_splits)
qed

lemma parse_loop_extends:
  "parse_loop data endpos prevpos flds = Inr flds' \<Longrightarrow>
   \<exists>as more. match_rules flds
      (replace_RS (trim (toString_range data prevpos
        (case buf_indexOf data separator prevpos of None \<Rightarrow> endpos | Some p \<Rightarrow> p)))) = Inr as \<and>
      flds' = more @ assign flds as"
proof (induction data endpos prevpos flds rule: parse_loop.induct)
  case (1 data endpos prevpos flds)
  define pos where "pos = (case buf_indexOf data separator prevpos of None \<Rightarrow> endpos | Some p \<Rightarrow> p)"
  define field where "field = replace_RS (trim (toString_range data prevpos pos))"
  from parse_loop_unfold [OF "1.prems" pos_def field_def] obtain as where
    m: "match_rules flds field = Inr as"
    and r: "if pos + 1 < endpos
            then parse_loop data endpos (pos + 1) (assign flds as) = Inr flds'
            else flds' = assign flds as"
    by blast
  show ?case
  proof (cases "pos + 1 < endpos")
    case True
    with r have "parse_loop data endpos (pos + 1) (assign flds as) = Inr flds'" by simp
    from "1.IH" [OF pos_def field_def m True this]
    obtain more' as' where "flds' = more' @ assign (assign flds as) as'"
      by blast
    then have "flds' = (more' @ rev as') @ assign flds as"
      by (simp add: assign_def)
    with m show ?thesis unfolding pos_def field_def by blast
  next
    case False
    with r have "flds' = [] @ assign flds as" by simp
    with m show ?thesis unfolding pos_def field_def by blast
  qed
qed

lemma decode_nonempty:
  assumes "decode data = Inr (Some flds)"
  shows "flds \<noteq> []"
proof -
  from assms have "parse_loop data (find_endpos data (length data)) 0 [] = Inr flds"
    by (simp add: decode_def split: if_splits sum.splits)
  from parse_loop_extends [OF this] obtain as more field where
    "match_rules [] field = Inr as" and "flds = more @ assign [] as"
    by blast
  with match_rules_first [of field as] show ?thesis
    by (simp add: assign_def)
qed


lemma digikey_rules_distinct: "distinct (map fst (digikey_rules field))"
  by (simp add: digikey_rules_def)

lemma match_rules_distinct: "match_rules flds field = Inr as \<Longrightarrow> distinct (map fst as)"
  by (auto simp: match_rules_def Let_def digikey_rules_distinct split: if_splits)

lemma distinct_assignments: "distinct (map fst as) \<Longrightarrow> assignments_to k as \<le> 1"
proof (induction as)
  case Nil
  then show ?case by (simp add: assignments_to_def)
next
  case (Cons a as)
  obtain k' v where a: "a = (k', v)" by (cases a)
  show ?case
  proof (cases "k' = k")
    case True
    with Cons.prems a have "k \<notin> fst ` set as" by simp
    then have "filter (\<lambda>(k', v). k' = k) as = []"
      by (force simp: filter_empty_conv)
    with True a show ?thesis by (simp add: assignments_to_def)
  next
    case False
    with Cons a show ?thesis by (simp add: assignments_to_def)
  qed
qed

lemma assignments_to_assign:
  "assignments_to k (assign flds as) = assignments_to k as + assignments_to k flds"
  by (simp add: assignments_to_def assign_def flip: rev_filter)

lemma index_of_count:
  "index_of cs b = Some i \<Longrightarrow> count_list cs b = Suc (count_list (drop (Suc i) cs) b)"
  by (induction cs arbitrary: i) (auto split: if_splits)

lemma buf_indexOf_count:
  assumes "buf_indexOf data b p = Some pos"
  shows "count_list (drop p data) b = Suc (count_list (drop (pos + 1) data) b)"
proof -
  from assms obtain i where i: "index_of (drop p data) b = Some i" and "pos = p + i"
    by (auto simp: buf_indexOf_def)
  then have "drop (pos + 1) data = drop (Suc i) (drop p data)"
    by (simp add: add.commute)
  with index_of_count [OF i] show ?thesis by simp
qed

lemma parse_loop_count:
  "parse_loop data endpos prevpos flds = Inr flds' \<Longrightarrow>
   assignments_to k flds' \<le>
     assignments_to k flds + 1 + count_list (drop prevpos data) separator"
proof (induction data endpos prevpos flds rule: parse_loop.induct)
  case (1 data endpos prevpos flds)
  define pos where "pos = (case buf_indexOf data separator prevpos of None \<Rightarrow> endpos | Some p \<Rightarrow> p)"
  define field where "field = replace_RS (trim (toString_range data prevpos pos))"
  from parse_loop_unfold [OF "1.prems" pos_def field_def] obtain as where
    m: "match_rules flds field = Inr as"
    and r: "if pos + 1 < endpos
            then parse_loop data endpos (pos + 1) (assign flds as) = Inr flds'
            else flds' = assign flds as"
    by blast
  have one: "assignments_to k as \<le> 1"
    using m by (intro distinct_assignments match_rules_distinct)
  show ?case
  proof (cases "pos + 1 < endpos")
    case True
    with r have run: "parse_loop data endpos (pos + 1) (assign flds as) = Inr flds'" by simp
    from True have "buf_indexOf data separator prevpos = Some pos"
      by (cases "buf_indexOf data separator prevpos") (simp_all add: pos_def)
    then have c: "count_list (drop prevpos data) separator =
        Suc (count_list (drop (pos + 1) data) separator)"
      by (rule buf_indexOf_count)
    from "1.IH" [OF pos_def field_def m True run]
    have "assignments_to k flds' \<le>
        assignments_to k (assign flds as) + 1 + count_list (drop (pos + 1) data) separator" .
    with one c show ?thesis
      by (simp add: assignments_to_assign)
  next
    case False
    with r one show ?thesis by (simp add: assignments_to_assign)
  qed
qed

lemma decode_count:
  assumes "decode data = Inr (Some flds)"
  shows "assignments_to k flds \<le> 1 + count_list data separator"
proof -
  from assms have "parse_loop data (find_endpos data (length data)) 0 [] = Inr flds"
    by (simp add: decode_def split: if_splits sum.splits)
  from parse_loop_count [OF this, of k] show ?thesis
    by (simp add: assignments_to_def)
qed

lemma unknown_fallback:
  assumes "\<not> rules_1_to_12 field"
  shows "get_field flds Distributor \<noteq> Some ''Digi-Key'' \<Longrightarrow>
         slice 0 3 field \<noteq> ''11K'' \<Longrightarrow> slice 0 3 field \<noteq> ''14K'' \<Longrightarrow>
         match_rules flds field = Inr [(Unknown, field)]"
    and "get_field flds Distributor = Some ''Digi-Key'' \<Longrightarrow> \<not> digikey_prefix field \<Longrightarrow>
         match_rules flds field = Inr []"
  using assms
  by (simp_all add: rules_1_to_12_def match_rules_def digikey_prefix_def digikey_rules_def)

text \<open>
  C6 (every key but \<open>unknown\<close> is assigned at most once per decode). The code has no
  such restriction: two segments \<open>1PA\<close> and \<open>1PB\<close> assign \<open>mfg_pn\<close> twice, and the
  second value stays.
\<close>

theorem C6_assigned_twice:
  "decode (''1PA'' @ [CHR 0x1D] @ ''1PB'') = Inr (Some [(Mfg_pn, ''B''), (Mfg_pn, ''A'')]) \<and>
   assignments_to Mfg_pn [(Mfg_pn, ''B''), (Mfg_pn, ''A'')] = 2 \<and>
   get_field [(Mfg_pn, ''B''), (Mfg_pn, ''A'')] Mfg_pn = Some ''B''"
  by code_simp

lemma two_segments_decode:
  "ascii (two_segments k) \<and> decode (two_segments k) = Inr (Some (two_assignments k))"
  by (cases k; hypsubst_thin; code_simp)

lemma two_assignments_count:
  "assignments_to k (two_assignments k) = 2 \<and>
   get_field (two_assignments k) k = Some (second_value k)"
  by (simp add: assignments_to_def two_assignments_def get_field_def)

text \<open>
  C6 as amended: a segment takes one branch of the chain, which assigns each key at most
  once; so a decode assigns a key at most once per segment, that is at most once more
  than there are group separators in the buffer. Every key, not only \<open>unknown\<close>, can be
  assigned by two segments of one decode: for each key \<open>k\<close> the buffer \<open>two_segments k\<close>
  decodes to fields in which \<open>k\<close> was assigned twice, and the value that stays is the one
  of the later segment. A later assignment to a key replaces its value.
\<close>

theorem C6_once_per_segment:
  "(match_rules flds field = Inr as \<longrightarrow> distinct (map fst as) \<and> assignments_to k as \<le> 1) \<and>
   (ascii data \<and> decode data = Inr (Some fs) \<longrightarrow>
      assignments_to k fs \<le> 1 + count_list data separator) \<and>
   get_field (assign flds [(k, v)]) k = Some v \<and>
   ascii (two_segments k) \<and>
   decode (two_segments k) = Inr (Some (two_assignments k)) \<and>
   assignments_to k (two_assignments k) = 2 \<and>
   get_field (two_assignments k) k = Some (second_value k)"
proof (intro conjI impI)
  assume "match_rules flds field = Inr as"
  then show "distinct (map fst as)" by (rule match_rules_distinct)
  then show "assignments_to k as \<le> 1" by (rule distinct_assignments)
next
  assume "ascii data \<and> decode data = Inr (Some fs)"
  then show "assignments_to k fs \<le> 1 + count_list data separator"
    by (intro decode_count) simp
next
  show "get_field (assign flds [(k, v)]) k = Some v"
    by (simp add: get_field_def assign_def)
next
  show "ascii (two_segments k)"
    and "decode (two_segments k) = Inr (Some (two_assignments k))"
    using two_segments_decode [of k] by simp_all
next
  show "assignments_to k (two_assignments k) = 2"
    and "get_field (two_assignments k) k = Some (second_value k)"
    using two_assignments_count [of k] by simp_all
qed

theorem C6_once_per_segment_witness:
  "match_rules [] ''1PA'' = Inr [(Mfg_pn, ''A'')] \<and>
   assignments_to Mfg_pn [(Mfg_pn, ''A'')] \<le> 1 \<and>
   ascii (''1PA'' @ [CHR 0x1D] @ ''1PB'') \<and>
   decode (''1PA'' @ [CHR 0x1D] @ ''1PB'') = Inr (Some [(Mfg_pn, ''B''), (Mfg_pn, ''A'')]) \<and>
   assignments_to Mfg_pn [(Mfg_pn, ''B''), (Mfg_pn, ''A'')] \<le>
     1 + count_list (''1PA'' @ [CHR 0x1D] @ ''1PB'') separator \<and>
   get_field (assign [(Mfg_pn, ''A'')] [(Mfg_pn, ''B'')]) Mfg_pn = Some ''B''"
proof -
  have m: "match_rules [] ''1PA'' = Inr [(Mfg_pn, ''A'')]"
    by code_simp
  have a: "ascii (''1PA'' @ [CHR 0x1D] @ ''1PB'')"
    by code_simp
  have d: "decode (''1PA'' @ [CHR 0x1D] @ ''1PB'') = Inr (Some [(Mfg_pn, ''B''), (Mfg_pn, ''A'')])"
    by code_simp
  from C6_once_per_segment [of "[]" "''1PA''" "[(Mfg_pn, ''A'')]" Mfg_pn
      "''1PA'' @ [CHR 0x1D] @ ''1PB''" "[(Mfg_pn, ''B''), (Mfg_pn, ''A'')]"]
    C6_once_per_segment [of "[(Mfg_pn, ''A'')]" "''1PA''" "[(Mfg_pn, ''A'')]" Mfg_pn
      "''1PA'' @ [CHR 0x1D] @ ''1PB''" "[(Mfg_pn, ''B''), (Mfg_pn, ''A'')]" "''B''"]
    m a d
  show ?thesis by blast
qed

text \<open>
  C7 (the decode fails if and only if the trimmed buffer is empty or some segment equals
  \<open>NOREAD\<close>). The code looks for the text \<open>NOREAD\<close> anywhere in the buffer: the buffer
  \<open>1PNOREAD\<close> has one segment, which is not \<open>NOREAD\<close>, and the decode fails all the same.
\<close>

theorem C7_noread_inside_segment:
  "decode ''1PNOREAD'' = Inr None \<and> \<not> spec_failure ''1PNOREAD'' \<and>
   spec_segments ''1PNOREAD'' = [''1PNOREAD'']"
  by code_simp

text \<open>
  C7 as amended: the decode fails (no field mapping is built, no rule is evaluated) if and
  only if the text of the buffer, trimmed of white space at both ends, is empty or the
  text contains \<open>NOREAD\<close> anywhere; a decode that does not fail and does not raise
  assigns at least one field; a buffer that is \<open>NOREAD\<close> followed by any of the control
  bytes EOT, CR, LF, RS fails.
\<close>

theorem C7_failure_iff:
  assumes "ascii data"
  shows "(decode data = Inr None) =
           (trim (toString data) = [] \<or> sublist ''NOREAD'' (toString data)) \<and>
         (decode data = Inr (Some flds) \<longrightarrow> flds \<noteq> []) \<and>
         (list_all is_trailer ctl \<longrightarrow> decode (''NOREAD'' @ ctl) = Inr None)"
proof (intro conjI impI)
  show "(decode data = Inr None) =
          (trim (toString data) = [] \<or> sublist ''NOREAD'' (toString data))"
    unfolding no_code_found_iff [symmetric]
    by (simp add: decode_def split: sum.splits)
next
  assume "decode data = Inr (Some flds)"
  then show "flds \<noteq> []" by (rule decode_nonempty)
next
  have "sublist ''NOREAD'' (toString (''NOREAD'' @ ctl))"
    by (simp add: toString_def toString_range_def del: append.simps)
  then have "no_code_found (''NOREAD'' @ ctl)"
    unfolding no_code_found_iff by (rule disjI2)
  then show "decode (''NOREAD'' @ ctl) = Inr None"
    by (simp add: decode_def)
qed

theorem C7_failure_iff_witness:
  "ascii (''NOREAD'' @ [CHR 0x0D, CHR 0x0A]) \<and>
   list_all is_trailer [CHR 0x0D, CHR 0x0A] \<and>
   decode (''NOREAD'' @ [CHR 0x0D, CHR 0x0A]) = Inr None \<and>
   sublist ''NOREAD'' (toString (''NOREAD'' @ [CHR 0x0D, CHR 0x0A])) \<and>
   ascii ''1P1234'' \<and> decode ''1P1234'' = Inr (Some [(Mfg_pn, ''1234'')]) \<and>
   [(Mfg_pn, ''1234'')] \<noteq> ([] :: fields) \<and>
   \<not> (trim (toString ''1P1234'') = [] \<or> sublist ''NOREAD'' (toString ''1P1234''))"
proof -
  have a: "ascii (''NOREAD'' @ [CHR 0x0D, CHR 0x0A])"
    by code_simp
  have t: "list_all is_trailer [CHR 0x0D, CHR 0x0A]"
    by code_simp
  have b: "ascii ''1P1234''"
    by code_simp
  have d: "decode ''1P1234'' = Inr (Some [(Mfg_pn, ''1234'')])"
    by code_simp
  from C7_failure_iff [OF a, of "[]" "[CHR 0x0D, CHR 0x0A]"] t
  have 1: "decode (''NOREAD'' @ [CHR 0x0D, CHR 0x0A]) = Inr None"
    and 2: "sublist ''NOREAD'' (toString (''NOREAD'' @ [CHR 0x0D, CHR 0x0A]))"
    by (simp_all add: toString_def toString_range_def del: append.simps)
  from C7_failure_iff [OF b, of "[(Mfg_pn, ''1234'')]" "[]"] d
  have 3: "\<not> (trim (toString ''1P1234'') = [] \<or> sublist ''NOREAD'' (toString ''1P1234''))"
    by simp
  from a t b d 1 2 3 show ?thesis by simp
qed

lemma hello_matches_no_rule: "\<not> rules_1_to_12 ''hello'' \<and> \<not> digikey_prefix ''hello''"
  by code_simp

text \<open>
  C9 (a segment that matches none of the rules 1 to 15 is stored under \<open>unknown\<close>, also
  while the Digi-Key sentinel is set). With the sentinel set the code enters the Digi-Key
  block for every segment that passed the tests before it, and that block lacks the final
  \<^verbatim>\<open>else\<close> that the outer chain has: after a bare \<open>K\<close> the segment \<open>hello\<close> is dropped,
  where alone it is stored under \<open>unknown\<close>.
\<close>

theorem C9_dropped_in_digikey_context:
  "slice 0 3 ''hello'' \<noteq> ''11K'' \<and> slice 0 3 ''hello'' \<noteq> ''14K'' \<and>
   match_rules [(Distributor, ''Digi-Key'')] ''hello'' = Inr [] \<and>
   match_rules [(Distributor, ''Digi-Key'')] ''hello'' \<noteq> Inr [(Unknown, ''hello'')] \<and>
   decode (''K'' @ [CHR 0x1D] @ ''hello'') = Inr (Some [(Distributor, ''Digi-Key'')]) \<and>
   decode ''hello'' = Inr (Some [(Unknown, ''hello'')])"
  by code_simp

section \<open>Properties of the range finder callback\<close>




lemma decide_cases:
  "(decide avg stddev = Fire) = (js_lt avg 50 \<and> js_lt stddev 1)"
  "(decide avg stddev = Arm) =
     (\<not> (js_lt avg 50 \<and> js_lt stddev 1) \<and> (js_lt avg 50 \<or> js_gt stddev 1))"
  "(decide avg stddev = Disarm) =
     (\<not> (js_lt avg 50 \<or> js_gt stddev 1) \<and> js_gt avg 50 \<and> js_lt stddev 1)"
  "(decide avg stddev = NoAction) =
     (\<not> (js_lt avg 50 \<or> js_gt stddev 1) \<and> \<not> (js_gt avg 50 \<and> js_lt stddev 1))"
  "(decide (Num a) (Num d) = NoAction) = (a = 50 \<and> d \<le> 1 \<or> 50 \<le> a \<and> d = 1)"
  by (auto simp: decide_def THRESHOLD_DISTANCE_MM_def THRESHOLD_MAX_DEVIATION_def)


text \<open>
  C4: for every pair \<open>(avg, stddev)\<close> the chain of tests selects \<open>Fire\<close> exactly when
  \<open>avg < 50\<close> and \<open>stddev < 1\<close>; else \<open>Arm\<close> exactly when \<open>avg < 50\<close> or \<open>stddev > 1\<close>;
  else \<open>Disarm\<close> exactly when \<open>avg > 50\<close> and \<open>stddev < 1\<close>; else nothing is done, which
  for two numbers happens only when one of them is at its threshold. \<open>Fire\<close> calls
  \<open>triggerCapture\<close>, \<open>Arm\<close> and \<open>Disarm\<close> call \<open>setTargetPattern\<close>. The comparisons are
  those of JavaScript, false on \<open>NaN\<close>.
\<close>

theorem C4_decision_rules:
  "(decide avg stddev = Fire) = (js_lt avg 50 \<and> js_lt stddev 1) \<and>
   (decide avg stddev = Arm) =
     (\<not> (js_lt avg 50 \<and> js_lt stddev 1) \<and> (js_lt avg 50 \<or> js_gt stddev 1)) \<and>
   (decide avg stddev = Disarm) =
     (\<not> (js_lt avg 50 \<or> js_gt stddev 1) \<and> js_gt avg 50 \<and> js_lt stddev 1) \<and>
   (decide avg stddev = NoAction) =
     (\<not> (js_lt avg 50 \<or> js_gt stddev 1) \<and> \<not> (js_gt avg 50 \<and> js_lt stddev 1)) \<and>
   (decide (Num a) (Num d) = NoAction) = (a = 50 \<and> d \<le> 1 \<or> 50 \<le> a \<and> d = 1) \<and>
   perform Fire camera = triggerCapture camera \<and>
   perform Arm camera = setTargetPattern True camera \<and>
   perform Disarm camera = setTargetPattern False camera \<and>
   perform NoAction camera = camera"
  by (intro conjI decide_cases) (simp_all add: perform_def)

text \<open>The decision at some pairs, one for each branch.\<close>

theorem C4_decision_rules_witness:
  "decide (Num 30) (Num (1 / 2)) = Fire \<and> decide (Num 30) (Num 2) = Arm \<and>
   decide (Num 70) (Num 2) = Arm \<and> decide (Num 30) NaN = Arm \<and>
   decide (Num 70) (Num (1 / 2)) = Disarm \<and> decide (Num 50) (Num (1 / 2)) = NoAction \<and>
   decide (Num 70) (Num 1) = NoAction \<and> decide (Num 70) NaN = NoAction"
  using C4_decision_rules [of "Num 30" "Num (1 / 2)"] C4_decision_rules [of "Num 30" "Num 2"]
    C4_decision_rules [of "Num 70" "Num 2"] C4_decision_rules [of "Num 30" NaN]
    C4_decision_rules [of "Num 70" "Num (1 / 2)"] C4_decision_rules [of "Num 50" "Num (1 / 2)"]
    C4_decision_rules [of "Num 70" "Num 1"] C4_decision_rules [of "Num 70" NaN]
  by simp



section \<open>Properties of the camera driver\<close>

lemma pending_calls_noop:
  assumes "captureTimeout s \<noteq> None"
  shows "triggerCapture s = s" and "setTargetPattern enabled s = s"
  using assms by (simp_all add: triggerCapture_def setTargetPattern_def)

lemma pending_run_noop:
  "captureTimeout s \<noteq> None \<Longrightarrow> list_all is_call calls \<Longrightarrow> run calls s = s"
proof (induction calls)
  case Nil
  then show ?case by (simp add: run_def)
next
  case (Cons ev calls)
  from Cons.prems have "step ev s = s"
    by (cases ev) (simp_all add: pending_calls_noop)
  with Cons show ?case by (simp add: run_def)
qed

lemma decode_None_iff: "(decode data = Inr None) = no_code_found data"
  by (simp add: decode_def split: sum.splits)

lemma idle_two_calls:
  assumes "sock s = Some c" and "captureTimeout s = None"
  shows "written (triggerCapture (triggerCapture s)) = written s @ [(c, ''< >'' @ CRLF)]"
    and "timers (triggerCapture (triggerCapture s)) = fresh s # timers s"
  using assms by (simp_all add: triggerCapture_def triggerCapture_resume_def)

text \<open>
  C1 (two calls of \<open>triggerCapture\<close> in immediate succession send the capture command
  once, in every state of the session, and at most one capture is pending). With no
  socket connected the flag is tested before \<^verbatim>\<open>await this.connect()\<close> and set after it:
  both calls pass the test, each opens a socket, and once the two sockets are connected
  the command is written twice and two timers are armed.
\<close>

theorem C1_two_calls_two_commands:
  "written (run [Call_triggerCapture, Call_triggerCapture, Connected 0, Connected 1] new_driver) =
     [(0, ''< >'' @ CRLF), (1, ''< >'' @ CRLF)] \<and>
   timers (run [Call_triggerCapture, Call_triggerCapture, Connected 0, Connected 1] new_driver) =
     [3, 2] \<and>
   written (run [Call_triggerCapture, Call_triggerCapture] new_driver) = [] \<and>
   connecting (run [Call_triggerCapture, Call_triggerCapture] new_driver) =
     [(0, Resume_triggerCapture), (1, Resume_triggerCapture)]"
  by code_simp

text \<open>
  C2 (after an inbound data event with a capture pending, the aim indicator has been
  commanded off, whether the decode failed or not). In a session that awaits a result
  with the indicator on, neither \<open>NOREAD\<close> nor a decodable buffer changes the indicator,
  and nothing is written to the camera.
\<close>

theorem C2_aim_indicator_stays_on:
  "captureTimeout awaiting_session = Some 1 \<and>
   targetPattern awaiting_session = Some True \<and>
   targetPattern (run [Data ''NOREAD''] awaiting_session) = Some True \<and>
   written (run [Data ''NOREAD''] awaiting_session) = written awaiting_session \<and>
   targetPattern (run [Data ''1P1234''] awaiting_session) = Some True \<and>
   written (run [Data ''1P1234''] awaiting_session) = written awaiting_session \<and>
   written awaiting_session = [(0, ''<l1>'' @ CRLF), (0, ''< >'' @ CRLF)]"
  by code_simp

text \<open>
  C2 as amended: when the decode fails (no code found), the handler clears the pending
  capture and does not command the aim indicator: nothing is written and the state of the
  indicator stays. When the decode yields fields and no capture is pending as the data
  arrive, the socket is connected and the indicator is not known to be off, the handler
  commands it off.
\<close>

theorem C2_aim_indicator_after_result:
  assumes "ascii data"
  shows "(no_code_found data \<longrightarrow>
            captureTimeout (captureResult data s) = None \<and>
            targetPattern (captureResult data s) = targetPattern s \<and>
            written (captureResult data s) = written s) \<and>
         (decode data = Inr (Some flds) \<and> captureTimeout s = None \<and> sock s = Some c \<and>
          targetPattern s \<noteq> Some False \<longrightarrow>
            targetPattern (captureResult data s) = Some False \<and>
            written (captureResult data s) = written s @ [(c, ''<l0>'' @ CRLF)])"
proof (intro conjI impI)
  assume "no_code_found data"
  then have d: "decode data = Inr None" by (simp add: decode_None_iff)
  show "captureTimeout (captureResult data s) = None"
    and "targetPattern (captureResult data s) = targetPattern s"
    and "written (captureResult data s) = written s"
    by (simp_all add: captureResult_def d clearTimeout_def split: option.splits)
next
  assume a: "decode data = Inr (Some flds) \<and> captureTimeout s = None \<and> sock s = Some c \<and>
    targetPattern s \<noteq> Some False"
  then show "targetPattern (captureResult data s) = Some False"
    and "written (captureResult data s) = written s @ [(c, ''<l0>'' @ CRLF)]"
    by (simp_all add: captureResult_def setTargetPattern_def setTargetPattern_resume_def Let_def)
qed

text \<open>A failed decode in the awaiting session, a decoded one in the aiming session.\<close>

theorem C2_aim_indicator_after_result_witness:
  "ascii ''NOREAD'' \<and> no_code_found ''NOREAD'' \<and>
   captureTimeout (captureResult ''NOREAD'' awaiting_session) = None \<and>
   targetPattern (captureResult ''NOREAD'' awaiting_session) = Some True \<and>
   written (captureResult ''NOREAD'' awaiting_session) =
     [(0, ''<l1>'' @ CRLF), (0, ''< >'' @ CRLF)] \<and>
   ascii ''1P1234'' \<and> decode ''1P1234'' = Inr (Some [(Mfg_pn, ''1234'')]) \<and>
   captureTimeout aiming_session = None \<and> sock aiming_session = Some 0 \<and>
   targetPattern (captureResult ''1P1234'' aiming_session) = Some False \<and>
   written (captureResult ''1P1234'' aiming_session) =
     [(0, ''<l1>'' @ CRLF), (0, ''<l0>'' @ CRLF)]"
proof -
  have a: "ascii ''NOREAD''" and n: "no_code_found ''NOREAD''"
    and b: "ascii ''1P1234''" and d: "decode ''1P1234'' = Inr (Some [(Mfg_pn, ''1234'')])"
    by code_simp+
  have w: "targetPattern awaiting_session = Some True"
    "written awaiting_session = [(0, ''<l1>'' @ CRLF), (0, ''< >'' @ CRLF)]"
    by code_simp+
  have i: "captureTimeout aiming_session = None" "sock aiming_session = Some 0"
    "targetPattern aiming_session = Some True" "written aiming_session = [(0, ''<l1>'' @ CRLF)]"
    by code_simp+
  from C2_aim_indicator_after_result [OF a, where s = awaiting_session] n w
  have 1: "captureTimeout (captureResult ''NOREAD'' awaiting_session) = None"
    "targetPattern (captureResult ''NOREAD'' awaiting_session) = Some True"
    "written (captureResult ''NOREAD'' awaiting_session) =
       [(0, ''<l1>'' @ CRLF), (0, ''< >'' @ CRLF)]"
    by simp_all
  from C2_aim_indicator_after_result [OF b, where s = aiming_session and c = 0
      and flds = "[(Mfg_pn, ''1234'')]"] d i
  have 2: "targetPattern (captureResult ''1P1234'' aiming_session) = Some False"
    "written (captureResult ''1P1234'' aiming_session) =
       [(0, ''<l1>'' @ CRLF), (0, ''<l0>'' @ CRLF)]"
    by simp_all
  from a n b d i 1 2 show ?thesis by simp
qed

text \<open>
  C10: when data arrive while a capture is pending and the decode does not fail, the
  handler leaves \<open>captureTimeout\<close> as it is: its own \<open>setTargetPattern(false)\<close> changes
  nothing, every sequence of calls of \<open>triggerCapture\<close> and \<open>setTargetPattern\<close> that
  follows changes nothing, and when fields were decoded the flag is cleared once the image
  is loaded. When the decode fails the handler clears the flag at once.
\<close>

theorem C10_flag_kept_until_image:
  assumes "captureTimeout s \<noteq> None" and "ascii data"
  shows "(\<not> no_code_found data \<longrightarrow>
            captureTimeout (captureResult data s) = captureTimeout s \<and>
            targetPattern (captureResult data s) = targetPattern s \<and>
            written (captureResult data s) = written s \<and>
            connecting (captureResult data s) = connecting s \<and>
            (list_all is_call calls \<longrightarrow>
               run calls (captureResult data s) = captureResult data s) \<and>
            (decode data = Inr (Some flds) \<longrightarrow>
               downloads (captureResult data s) = Suc (downloads s) \<and>
               captureTimeout (image_loaded (captureResult data s)) = None)) \<and>
         (no_code_found data \<longrightarrow> captureTimeout (captureResult data s) = None)"
proof -
  from assms(1) obtain t where t: "captureTimeout s = Some t" by auto
  define s1 where "s1 = clearTimeout t s"
  have s1: "captureTimeout s1 = Some t" "targetPattern s1 = targetPattern s"
    "written s1 = written s" "connecting s1 = connecting s" "downloads s1 = downloads s"
    by (simp_all add: s1_def clearTimeout_def t)
  then have same: "setTargetPattern False s1 = s1"
    by (simp add: pending_calls_noop)
  have r: "captureResult data s =
      (case decode data of
         Inr None \<Rightarrow> s1\<lparr>captureTimeout := None\<rparr>
       | Inl e \<Rightarrow> s1\<lparr>rejected := rejected s1 @ [e]\<rparr>
       | Inr (Some flds) \<Rightarrow> s1\<lparr>downloads := Suc (downloads s1)\<rparr>)"
    by (simp add: captureResult_def t s1_def [symmetric] same Let_def
        split: sum.splits option.splits)
  show ?thesis
  proof (intro conjI impI)
    assume "no_code_found data"
    then show "captureTimeout (captureResult data s) = None"
      by (simp add: r decode_None_iff [symmetric])
  next
    assume n: "\<not> no_code_found data"
    then have d: "decode data \<noteq> Inr None" by (simp add: decode_None_iff)
    then show f: "captureTimeout (captureResult data s) = captureTimeout s"
      and "targetPattern (captureResult data s) = targetPattern s"
      and "written (captureResult data s) = written s"
      and "connecting (captureResult data s) = connecting s"
      by (auto simp: r s1 t split: sum.splits option.splits)
    from f t have "captureTimeout (captureResult data s) \<noteq> None" by simp
    then show "run calls (captureResult data s) = captureResult data s" if "list_all is_call calls"
      using that by (rule pending_run_noop)
    show "downloads (captureResult data s) = Suc (downloads s)" if "decode data = Inr (Some flds)"
      using that by (simp add: r s1)
    show "captureTimeout (image_loaded (captureResult data s)) = None"
      if "decode data = Inr (Some flds)"
      using that by (simp add: r image_loaded_def)
  qed
qed


text \<open>A decoded buffer and \<open>NOREAD\<close> in the awaiting session.\<close>

theorem C10_flag_kept_until_image_witness:
  "captureTimeout awaiting_session = Some 1 \<and> ascii ''1P1234'' \<and> \<not> no_code_found ''1P1234'' \<and>
   captureTimeout (captureResult ''1P1234'' awaiting_session) = Some 1 \<and>
   targetPattern (captureResult ''1P1234'' awaiting_session) = Some True \<and>
   list_all is_call [Call_triggerCapture, Call_setTargetPattern False] \<and>
   run [Call_triggerCapture, Call_setTargetPattern False]
     (captureResult ''1P1234'' awaiting_session) = captureResult ''1P1234'' awaiting_session \<and>
   decode ''1P1234'' = Inr (Some [(Mfg_pn, ''1234'')]) \<and>
   captureTimeout (image_loaded (captureResult ''1P1234'' awaiting_session)) = None \<and>
   ascii ''NOREAD'' \<and> no_code_found ''NOREAD'' \<and>
   captureTimeout (captureResult ''NOREAD'' awaiting_session) = None"
proof -
  have t: "captureTimeout awaiting_session = Some 1" "targetPattern awaiting_session = Some True"
    by code_simp+
  then have p: "captureTimeout awaiting_session \<noteq> None" by simp
  have a: "ascii ''1P1234''" and n: "\<not> no_code_found ''1P1234''"
    and d: "decode ''1P1234'' = Inr (Some [(Mfg_pn, ''1234'')])"
    and c: "list_all is_call [Call_triggerCapture, Call_setTargetPattern False]"
    and b: "ascii ''NOREAD''" and f: "no_code_found ''NOREAD''"
    by code_simp+
  from C10_flag_kept_until_image [OF p a,
      where calls = "[Call_triggerCapture, Call_setTargetPattern False]"
      and flds = "[(Mfg_pn, ''1234'')]"] n d c t
  have 1: "captureTimeout (captureResult ''1P1234'' awaiting_session) = Some 1"
    "targetPattern (captureResult ''1P1234'' awaiting_session) = Some True"
    "run [Call_triggerCapture, Call_setTargetPattern False]
       (captureResult ''1P1234'' awaiting_session) = captureResult ''1P1234'' awaiting_session"
    "captureTimeout (image_loaded (captureResult ''1P1234'' awaiting_session)) = None"
    by simp_all
  from C10_flag_kept_until_image [OF p b] f
  have 2: "captureTimeout (captureResult ''NOREAD'' awaiting_session) = None"
    by simp
  from t a n d c b f 1 2 show ?thesis by simp
qed


end
